theory Spec2Isabelle
  imports Main "HOL-Library.AList"
begin

section \<open>Shared JavaScript idioms\<close>

text \<open>
  \<open>result: any\<close> and the other untyped payloads are JSON values.
\<close>

datatype json =
    JNull
  | JBool bool
  | JNum int
  | JStr string
  | JArr "json list"
  | JObj "(string \<times> json) list"

text \<open>
  \<open>Array.prototype.findIndex\<close> and \<open>indexOf\<close> return the first matching index, or
  \<open>-1\<close>; here \<open>None\<close> stands for \<open>-1\<close>.
\<close>

fun findIndex :: "('a \<Rightarrow> bool) \<Rightarrow> 'a list \<Rightarrow> nat option" where
  "findIndex p [] = None"
| "findIndex p (x # xs) =
     (if p x then Some 0
      else case findIndex p xs of None \<Rightarrow> None | Some i \<Rightarrow> Some (Suc i))"

definition indexOf :: "'a list \<Rightarrow> 'a \<Rightarrow> nat option" where
  "indexOf xs x = findIndex (\<lambda>y. y = x) xs"

text \<open>
  \<open>a || b\<close> on strings: the empty string is falsy, every other string is truthy.
\<close>

definition or_else :: "string \<Rightarrow> string \<Rightarrow> string" where
  "or_else a b = (if a = [] then b else a)"

text \<open>
  What an \<open>await fetch(...)\<close> followed by \<open>response.json()\<close> can give a thunk: the
  request itself rejects (with the message of the error), or a response arrives whose
  \<open>ok\<close> flag is read first and whose body is decoded only afterwards; decoding
  rejects with a message (\<open>Inl\<close>) or yields the payload (\<open>Inr\<close>).
\<close>

datatype 'a fetch_outcome =
    FetchRejected string
  | HttpResponse bool "string + 'a"

text \<open>
  The body shared by every thunk of the slices:
  \<open>if (!response.ok) throw new Error(msg); return response.json();\<close>.
  \<open>Inl m\<close> is the rejected thunk with \<open>error.message = m\<close>, \<open>Inr p\<close> the fulfilled
  thunk with payload \<open>p\<close>.
\<close>

fun thunk_result :: "string \<Rightarrow> 'a fetch_outcome \<Rightarrow> string + 'a" where
  "thunk_result msg (FetchRejected m) = Inl m"
| "thunk_result msg (HttpResponse ok body) = (if \<not> ok then Inl msg else body)"


section \<open>The tasks slice (store/tasksSlice.ts)\<close>

datatype priority = Low | Medium | High

text \<open>
  The union of string literals of \<open>Task.status\<close>, with the literal each member is
  written as.
\<close>

datatype task_status = Pending | Running | Completed | Failed | Cancelled

fun status_name :: "task_status \<Rightarrow> string" where
  "status_name Pending = ''pending''"
| "status_name Running = ''running''"
| "status_name Completed = ''completed''"
| "status_name Failed = ''failed''"
| "status_name Cancelled = ''cancelled''"

record Task =
  task_id :: string
  title :: string
  description :: string
  task_type :: string
  priority :: priority
  status :: task_status
  agent_id :: "string option"
  created_at :: string
  updated_at :: string
  user_id :: string
  result :: json
  dependencies :: "string list"

record TaskFilters =
  filter_status :: string
  filter_priority :: string
  filter_type :: string

record TasksState =
  tasks :: "Task list"
  currentTask :: "Task option"
  loading :: bool
  error :: "string option"
  availableTypes :: "string list"
  filters :: TaskFilters

definition initialState :: TasksState where
  "initialState =
     \<lparr> tasks = [], currentTask = None, loading = False, error = None,
       availableTypes = [],
       filters = \<lparr> filter_status = ''all'', filter_priority = ''all'',
                   filter_type = ''all'' \<rparr> \<rparr>"

text \<open>
  \<open>Partial<TasksState['filters']>\<close> and \<open>Partial<Task>\<close>: every field may be absent.
\<close>

record PartialFilters =
  pf_status :: "string option"
  pf_priority :: "string option"
  pf_type :: "string option"

record PartialTask =
  p_id :: "string option"
  p_title :: "string option"
  p_description :: "string option"
  p_type :: "string option"
  p_priority :: "priority option"
  p_status :: "task_status option"
  p_agent_id :: "string option option"
  p_created_at :: "string option"
  p_updated_at :: "string option"
  p_user_id :: "string option"
  p_result :: "json option"
  p_dependencies :: "string list option"

text \<open>
  \<open>Omit<Task, 'id' | 'created_at' | 'updated_at' | 'user_id' | 'result'>\<close>, the
  argument of \<open>createTask\<close>.
\<close>

record NewTask =
  n_title :: string
  n_description :: string
  n_type :: string
  n_priority :: priority
  n_status :: task_status
  n_agent_id :: "string option"
  n_dependencies :: "string list"

subsection \<open>Thunks\<close>

text \<open>
  Each thunk sends its argument to the server and returns what the server answers; the
  argument has no other influence on the result. The second parameter is the outcome of
  the \<open>fetch\<close>.
\<close>

definition fetchTasks :: "(string \<times> string) list \<Rightarrow> Task list fetch_outcome \<Rightarrow> string + Task list" where
  "fetchTasks query out = thunk_result ''Failed to fetch tasks'' out"

definition createTask :: "NewTask \<Rightarrow> Task fetch_outcome \<Rightarrow> string + Task" where
  "createTask taskData out = thunk_result ''Failed to create task'' out"

definition updateTask :: "string \<times> PartialTask \<Rightarrow> Task fetch_outcome \<Rightarrow> string + Task" where
  "updateTask arg out = thunk_result ''Failed to update task'' out"


text \<open>
  \<open>deleteTask\<close> never decodes the body: it returns its own argument.
\<close>

fun deleteTask :: "string \<Rightarrow> unit fetch_outcome \<Rightarrow> string + string" where
  "deleteTask i (FetchRejected m) = Inl m"
| "deleteTask i (HttpResponse ok body) =
     (if \<not> ok then Inl ''Failed to delete task'' else Inr i)"

definition fetchAvailableTaskTypes :: "string list fetch_outcome \<Rightarrow> string + string list" where
  "fetchAvailableTaskTypes out = thunk_result ''Failed to fetch available task types'' out"

subsection \<open>Reducer\<close>

datatype tasks_action =
    SetCurrentTask "Task option"
  | SetFilters PartialFilters
  | ClearError
  | FetchTasksPending
  | FetchTasksFulfilled "Task list"
  | FetchTasksRejected string
  | CreateTaskPending
  | CreateTaskFulfilled Task
  | CreateTaskRejected string
  | UpdateTaskPending
  | UpdateTaskFulfilled Task
  | UpdateTaskRejected string
  | ExecuteTaskPending
  | ExecuteTaskFulfilled Task
  | ExecuteTaskRejected string
  | DeleteTaskPending
  | DeleteTaskFulfilled string
  | DeleteTaskRejected string
  | FetchAvailableTaskTypesPending
  | FetchAvailableTaskTypesFulfilled "string list"
  | FetchAvailableTaskTypesRejected string

definition merge_filters :: "TaskFilters \<Rightarrow> PartialFilters \<Rightarrow> TaskFilters" where
  "merge_filters f p =
     \<lparr> filter_status = (case pf_status p of None \<Rightarrow> filter_status f | Some v \<Rightarrow> v),
       filter_priority = (case pf_priority p of None \<Rightarrow> filter_priority f | Some v \<Rightarrow> v),
       filter_type = (case pf_type p of None \<Rightarrow> filter_type f | Some v \<Rightarrow> v) \<rparr>"

text \<open>
  The body shared by \<open>updateTask.fulfilled\<close> and \<open>executeTask.fulfilled\<close>:
  \<open>const index = state.tasks.findIndex(task => task.id === action.payload.id);
    if (index !== -1) { state.tasks[index] = action.payload; }\<close>
\<close>

definition replace_task :: "TasksState \<Rightarrow> Task \<Rightarrow> TasksState" where
  "replace_task s payload =
     (case findIndex (\<lambda>task. task_id task = task_id payload) (tasks s) of
        None \<Rightarrow> s
      | Some index \<Rightarrow> s\<lparr>tasks := (tasks s)[index := payload]\<rparr>)"

text \<open>
  An action with no case in the slice (the pending and rejected actions of
  \<open>updateTask\<close>, \<open>executeTask\<close>, \<open>deleteTask\<close> and \<open>fetchAvailableTaskTypes\<close>)
  leaves the state as it is.
\<close>

fun tasksReducer :: "TasksState \<Rightarrow> tasks_action \<Rightarrow> TasksState" where
  "tasksReducer s (SetCurrentTask t) = s\<lparr>currentTask := t\<rparr>"
| "tasksReducer s (SetFilters p) = s\<lparr>filters := merge_filters (filters s) p\<rparr>"
| "tasksReducer s ClearError = s\<lparr>error := None\<rparr>"
| "tasksReducer s FetchTasksPending = s\<lparr>loading := True, error := None\<rparr>"
| "tasksReducer s (FetchTasksFulfilled ts) = s\<lparr>loading := False, tasks := ts\<rparr>"
| "tasksReducer s (FetchTasksRejected m) =
     s\<lparr>loading := False, error := Some (or_else m ''Failed to fetch tasks'')\<rparr>"
| "tasksReducer s CreateTaskPending = s\<lparr>loading := True, error := None\<rparr>"
| "tasksReducer s (CreateTaskFulfilled t) = s\<lparr>loading := False, tasks := tasks s @ [t]\<rparr>"
| "tasksReducer s (CreateTaskRejected m) =
     s\<lparr>loading := False, error := Some (or_else m ''Failed to create task'')\<rparr>"
| "tasksReducer s (UpdateTaskFulfilled t) = replace_task s t"
| "tasksReducer s (ExecuteTaskFulfilled t) = replace_task s t"
| "tasksReducer s (DeleteTaskFulfilled i) =
     s\<lparr>tasks := filter (\<lambda>task. task_id task \<noteq> i) (tasks s)\<rparr>"
| "tasksReducer s (FetchAvailableTaskTypesFulfilled ts) = s\<lparr>availableTypes := ts\<rparr>"
| "tasksReducer s _ = s"

text \<open>
  Dispatching a thunk made by \<open>createAsyncThunk\<close>: the pending action first, then the
  fulfilled or the rejected action, according to the thunk's result.
\<close>

definition dispatch_createTask :: "TasksState \<Rightarrow> NewTask \<Rightarrow> Task fetch_outcome \<Rightarrow> TasksState" where
  "dispatch_createTask s taskData out =
     tasksReducer (tasksReducer s CreateTaskPending)
       (case createTask taskData out of
          Inl m \<Rightarrow> CreateTaskRejected m
        | Inr t \<Rightarrow> CreateTaskFulfilled t)"

definition dispatch_updateTask :: "TasksState \<Rightarrow> string \<times> PartialTask \<Rightarrow> Task fetch_outcome \<Rightarrow> TasksState" where
  "dispatch_updateTask s arg out =
     tasksReducer (tasksReducer s UpdateTaskPending)
       (case updateTask arg out of
          Inl m \<Rightarrow> UpdateTaskRejected m
        | Inr t \<Rightarrow> UpdateTaskFulfilled t)"


definition dispatch_deleteTask :: "TasksState \<Rightarrow> string \<Rightarrow> unit fetch_outcome \<Rightarrow> TasksState" where
  "dispatch_deleteTask s i out =
     tasksReducer (tasksReducer s DeleteTaskPending)
       (case deleteTask i out of
          Inl m \<Rightarrow> DeleteTaskRejected m
        | Inr j \<Rightarrow> DeleteTaskFulfilled j)"



section \<open>The tasks page (pages/Tasks/Tasks.tsx)\<close>

datatype view_mode = TableView | CardsView

text \<open>
  The \<open>formData\<close> state of the page. Its \<open>agent_id\<close> is a string, empty for
  \<open>No Agent\<close>.
\<close>

record TaskFormData =
  form_title :: string
  form_description :: string
  form_type :: string
  form_priority :: priority
  form_status :: task_status
  form_agent_id :: string
  form_dependencies :: "string list"

record TasksPage =
  viewMode :: view_mode
  dialogOpen :: bool
  editingTask :: "Task option"
  formData :: TaskFormData

definition empty_form :: TaskFormData where
  "empty_form =
     \<lparr> form_title = [], form_description = [], form_type = [], form_priority = Medium,
       form_status = Pending, form_agent_id = [], form_dependencies = [] \<rparr>"

definition handleCreateTask :: "TasksPage \<Rightarrow> TasksPage" where
  "handleCreateTask page = page\<lparr>editingTask := None, formData := empty_form, dialogOpen := True\<rparr>"

text \<open>
  \<open>task.agent_id || ''\<close>: \<open>null\<close> and the empty string both give the empty string.
\<close>

definition handleEditTask :: "Task \<Rightarrow> TasksPage \<Rightarrow> TasksPage" where
  "handleEditTask task page =
     page\<lparr> editingTask := Some task,
           formData :=
             \<lparr> form_title = title task, form_description = description task,
               form_type = task_type task, form_priority = priority task,
               form_status = status task,
               form_agent_id = (case agent_id task of None \<Rightarrow> [] | Some a \<Rightarrow> or_else a []),
               form_dependencies = dependencies task \<rparr>,
           dialogOpen := True \<rparr>"

text \<open>
  The fields of the dialog: each \<open>onChange\<close> is
  \<open>setFormData({ ...formData, field: value })\<close>, for the title, the description,
  the type, the priority and the agent. The dialog has no field for the status or the
  dependencies.
\<close>

datatype form_edit =
    EditTitle string
  | EditDescription string
  | EditType string
  | EditPriority priority
  | EditAgent string

fun apply_edit :: "TasksPage \<Rightarrow> form_edit \<Rightarrow> TasksPage" where
  "apply_edit page (EditTitle v) = page\<lparr>formData := (formData page)\<lparr>form_title := v\<rparr>\<rparr>"
| "apply_edit page (EditDescription v) = page\<lparr>formData := (formData page)\<lparr>form_description := v\<rparr>\<rparr>"
| "apply_edit page (EditType v) = page\<lparr>formData := (formData page)\<lparr>form_type := v\<rparr>\<rparr>"
| "apply_edit page (EditPriority v) = page\<lparr>formData := (formData page)\<lparr>form_priority := v\<rparr>\<rparr>"
| "apply_edit page (EditAgent v) = page\<lparr>formData := (formData page)\<lparr>form_agent_id := v\<rparr>\<rparr>"

text \<open>
  The form passed as \<open>updates\<close> (a \<open>Partial<Task>\<close>) and as \<open>taskData\<close>.
\<close>

definition form_updates :: "TaskFormData \<Rightarrow> PartialTask" where
  "form_updates f =
     \<lparr> p_id = None, p_title = Some (form_title f), p_description = Some (form_description f),
       p_type = Some (form_type f), p_priority = Some (form_priority f),
       p_status = Some (form_status f), p_agent_id = Some (Some (form_agent_id f)),
       p_created_at = None, p_updated_at = None, p_user_id = None, p_result = None,
       p_dependencies = Some (form_dependencies f) \<rparr>"

definition form_taskData :: "TaskFormData \<Rightarrow> NewTask" where
  "form_taskData f =
     \<lparr> n_title = form_title f, n_description = form_description f, n_type = form_type f,
       n_priority = form_priority f, n_status = form_status f,
       n_agent_id = Some (form_agent_id f), n_dependencies = form_dependencies f \<rparr>"

text \<open>
  What a handler of the page dispatches to the store.
\<close>

datatype page_dispatch =
    DispatchUpdateTask "string \<times> PartialTask"
  | DispatchCreateTask NewTask
  | DispatchExecuteTask string
  | DispatchDeleteTask string

definition handleSaveTask :: "TasksPage \<Rightarrow> page_dispatch \<times> TasksPage" where
  "handleSaveTask page =
     ((case editingTask page of
         Some t \<Rightarrow> DispatchUpdateTask (task_id t, form_updates (formData page))
       | None \<Rightarrow> DispatchCreateTask (form_taskData (formData page))),
      page\<lparr>dialogOpen := False\<rparr>)"

text \<open>
  \<open>handleDeleteTask\<close> asks \<open>window.confirm\<close> first; \<open>confirmed\<close> is the answer.
\<close>

definition handleDeleteTask :: "bool \<Rightarrow> string \<Rightarrow> page_dispatch option" where
  "handleDeleteTask confirmed taskId = (if confirmed then Some (DispatchDeleteTask taskId) else None)"


text \<open>
  The buttons \<open>renderTaskActions\<close> renders for a task, each with its \<open>disabled\<close>
  flag: Execute only for a pending task, Edit and Delete always, disabled for a running
  task.
\<close>

datatype task_button = ExecuteButton | EditButton | DeleteButton

definition renderTaskActions :: "Task \<Rightarrow> (task_button \<times> bool) list" where
  "renderTaskActions task =
     (if status task = Pending then [(ExecuteButton, False)] else [])
     @ [(EditButton, status task = Running), (DeleteButton, status task = Running)]"

subsection \<open>Tasks and their agents across the reducer's actions\<close>






section \<open>The chat slice: deleting a session\<close>

datatype chat_role = User | Assistant

record ChatMessage =
  message_id :: string
  content :: string
  role :: chat_role
  timestamp :: string
  message_session_id :: string
  message_agent_id :: "string option"
  metadata :: "(string \<times> json) list option"

record ChatSession =
  session_id :: string
  session_title :: string
  session_created_at :: string
  session_updated_at :: string
  session_user_id :: string
  session_agent_id :: "string option"
  session_messages :: "ChatMessage list"

record ChatState =
  sessions :: "ChatSession list"
  currentSession :: "ChatSession option"
  messages :: "ChatMessage list"
  chat_loading :: bool
  chat_error :: "string option"
  isStreaming :: bool

text \<open>
  The thunk returns the identifier it was called with.
\<close>

fun deleteChatSession :: "string \<Rightarrow> unit fetch_outcome \<Rightarrow> string + string" where
  "deleteChatSession sessionId (FetchRejected m) = Inl m"
| "deleteChatSession sessionId (HttpResponse ok body) =
     (if \<not> ok then Inl ''Failed to delete chat session'' else Inr sessionId)"

text \<open>
  \<open>state.currentSession?.id === action.payload\<close> is false when there is no current
  session: \<open>undefined\<close> is not a string.
\<close>

definition deleteChatSession_fulfilled :: "ChatState \<Rightarrow> string \<Rightarrow> ChatState" where
  "deleteChatSession_fulfilled state payload =
     (let state1 = state\<lparr>sessions := filter (\<lambda>session. session_id session \<noteq> payload) (sessions state)\<rparr>
      in if (case currentSession state1 of None \<Rightarrow> False | Some c \<Rightarrow> session_id c = payload)
         then state1\<lparr>currentSession := None, messages := []\<rparr>
         else state1)"


section \<open>The event registry of WebSocketService\<close>

text \<open>
  \<open>eventHandlers\<close> is a \<open>Map<string, Function[]>\<close>. The arrays are objects: the
  map holds references to them, and \<open>emit\<close> iterates over the very array that \<open>on\<close>
  and \<open>off\<close> change in place. So the arrays live in a store, addressed by their
  position in \<open>arrays\<close>, and the map (in insertion order) holds addresses. A handler is
  a function reference, compared by identity: a value of type \<open>'h\<close>.
\<close>

record 'h WebSocketService =
  eventHandlers :: "(string \<times> nat) list"
  arrays :: "'h list list"

definition new_service :: "'h WebSocketService" where
  "new_service = \<lparr> eventHandlers = [], arrays = [] \<rparr>"

text \<open>
  \<open>on\<close>: \<open>get(event) || []\<close> is the stored array, or a new one; \<open>push\<close> appends to
  it in place; \<open>set\<close> stores its reference under \<open>event\<close>.
\<close>

definition on :: "string \<Rightarrow> 'h \<Rightarrow> 'h WebSocketService \<Rightarrow> 'h WebSocketService" where
  "on event handler s =
     (case map_of (eventHandlers s) event of
        Some r \<Rightarrow>
          s\<lparr> arrays := (arrays s)[r := arrays s ! r @ [handler]],
             eventHandlers := AList.update event r (eventHandlers s) \<rparr>
      | None \<Rightarrow>
          s\<lparr> arrays := arrays s @ [[handler]],
             eventHandlers := AList.update event (length (arrays s)) (eventHandlers s) \<rparr>)"

text \<open>
  \<open>handlers.splice(index, 1)\<close> removes the element at \<open>index\<close> in place.
\<close>

definition splice1 :: "nat \<Rightarrow> 'a list \<Rightarrow> 'a list" where
  "splice1 index xs = take index xs @ drop (Suc index) xs"

text \<open>
  \<open>off\<close>: without a handler the entry of the map is deleted (the array object is left
  as it is); with a handler its first occurrence is spliced out of the stored array.
  When the event has no entry, \<open>indexOf\<close> searches a new empty array and finds nothing.
\<close>

definition off :: "string \<Rightarrow> 'h option \<Rightarrow> 'h WebSocketService \<Rightarrow> 'h WebSocketService" where
  "off event handler s =
     (case handler of
        None \<Rightarrow> s\<lparr>eventHandlers := AList.delete event (eventHandlers s)\<rparr>
      | Some h \<Rightarrow>
          (case map_of (eventHandlers s) event of
             None \<Rightarrow> s
           | Some r \<Rightarrow>
               (case indexOf (arrays s ! r) h of
                  None \<Rightarrow> s
                | Some index \<Rightarrow>
                    s\<lparr> arrays := (arrays s)[r := splice1 index (arrays s ! r)],
                       eventHandlers := AList.update event r (eventHandlers s) \<rparr>)))"

text \<open>
  Every address held by the map is the address of an array of the store, and no two events
  share an array. It is so in the new service, and \<open>on\<close> and \<open>off\<close> keep it so:
  \<open>on\<close> makes a new array for an event that has none.
\<close>

definition well_stored :: "'h WebSocketService \<Rightarrow> bool" where
  "well_stored s =
     ((\<forall>r \<in> snd ` set (eventHandlers s). r < length (arrays s))
      \<and> distinct (map snd (eventHandlers s)))"

text \<open>
  The handlers registered for an event, in the order of the stored array.
\<close>

definition handlers_of :: "'h WebSocketService \<Rightarrow> string \<Rightarrow> 'h list" where
  "handlers_of s event =
     (case map_of (eventHandlers s) event of None \<Rightarrow> [] | Some r \<Rightarrow> arrays s ! r)"

subsection \<open>Handlers\<close>

text \<open>
  A handler is arbitrary code. Called with the data, it may change the world outside
  the service (\<open>'w\<close>), call \<open>on\<close> and \<open>off\<close> of the service any number of times,
  and return or throw. The map is private and the service has no method that reads it,
  so what a handler does cannot depend on the registry. A handler that calls \<open>emit\<close>
  again from inside a delivery is not covered.
\<close>

datatype 'h call = CallOn string 'h | CallOff string "'h option"

type_synonym ('h, 'd, 'w) behaviour = "'h \<Rightarrow> 'd \<Rightarrow> 'w \<Rightarrow> 'h call list \<times> string option \<times> 'w"

fun run_call :: "'h call \<Rightarrow> 'h WebSocketService \<Rightarrow> 'h WebSocketService" where
  "run_call (CallOn event h) s = on event h s"
| "run_call (CallOff event h) s = off event h s"

definition run_calls :: "'h call list \<Rightarrow> 'h WebSocketService \<Rightarrow> 'h WebSocketService" where
  "run_calls cs s = fold run_call cs s"

text \<open>
  The state a delivery runs in: the service, the world, the calls \<open>handler(data)\<close> made
  so far, and the lines written by \<open>console.error\<close>.
\<close>

record ('h, 'd, 'w) runtime =
  service :: "'h WebSocketService"
  world :: 'w
  delivered :: "('h \<times> 'd) list"
  console :: "(string \<times> string) list"

text \<open>
  \<open>handler(data)\<close>: the first component is the exception thrown, if any.
\<close>

definition invoke :: "('h, 'd, 'w) behaviour \<Rightarrow> 'h \<Rightarrow> 'd \<Rightarrow> ('h, 'd, 'w) runtime \<Rightarrow> string option \<times> ('h, 'd, 'w) runtime" where
  "invoke beh h d \<sigma> =
     (case beh h d (world \<sigma>) of
        (cs, thrown, w') \<Rightarrow>
          (thrown,
           \<sigma>\<lparr> service := run_calls cs (service \<sigma>), world := w',
              delivered := delivered \<sigma> @ [(h, d)] \<rparr>))"

text \<open>
  The callback of \<open>emit\<close>: \<open>try { handler(data); } catch (error) { console.error(...) }\<close>.
\<close>

definition emit_callback :: "('h, 'd, 'w) behaviour \<Rightarrow> string \<Rightarrow> 'd \<Rightarrow> 'h \<Rightarrow> ('h, 'd, 'w) runtime \<Rightarrow> string option \<times> ('h, 'd, 'w) runtime" where
  "emit_callback beh event d h \<sigma> =
     (case invoke beh h d \<sigma> of
        (None, \<sigma>') \<Rightarrow> (None, \<sigma>')
      | (Some err, \<sigma>') \<Rightarrow>
          (None,
           \<sigma>'\<lparr>console := console \<sigma>' @ [(''Error in WebSocket event handler for '' @ event @ '':'', err)]\<rparr>))"

text \<open>
  \<open>Array.prototype.forEach\<close>: the length is read once, before the first call; then for
  each index below it, in order, the callback is called on the element found at that
  index at that moment, if the array (which the callback may have changed meanwhile)
  still has that index. An exception of the callback ends the loop and is passed on.
  \<open>arr\<close> reads the array being iterated from the current state; \<open>n\<close> counts the
  indices left.
\<close>

fun forEach_from :: "('h \<Rightarrow> 's \<Rightarrow> string option \<times> 's) \<Rightarrow> ('s \<Rightarrow> 'h list) \<Rightarrow> nat \<Rightarrow> nat \<Rightarrow> 's \<Rightarrow> string option \<times> 's" where
  "forEach_from callback arr k 0 \<sigma> = (None, \<sigma>)"
| "forEach_from callback arr k (Suc n) \<sigma> =
     (if k < length (arr \<sigma>)
      then (case callback (arr \<sigma> ! k) \<sigma> of
              (Some err, \<sigma>') \<Rightarrow> (Some err, \<sigma>')
            | (None, \<sigma>') \<Rightarrow> forEach_from callback arr (Suc k) n \<sigma>')
      else forEach_from callback arr (Suc k) n \<sigma>)"

definition forEach :: "('h \<Rightarrow> 's \<Rightarrow> string option \<times> 's) \<Rightarrow> ('s \<Rightarrow> 'h list) \<Rightarrow> 's \<Rightarrow> string option \<times> 's" where
  "forEach callback arr \<sigma> = forEach_from callback arr 0 (length (arr \<sigma>)) \<sigma>"

text \<open>
  \<open>emit\<close>: the array iterated is the one stored under \<open>event\<close> when \<open>emit\<close> is
  called, or a new empty array. The first component of the result is the exception
  \<open>emit\<close> itself ends with, if any.
\<close>

definition emit :: "('h, 'd, 'w) behaviour \<Rightarrow> string \<Rightarrow> 'd \<Rightarrow> ('h, 'd, 'w) runtime \<Rightarrow> string option \<times> ('h, 'd, 'w) runtime" where
  "emit beh event d \<sigma> =
     (case map_of (eventHandlers (service \<sigma>)) event of
        None \<Rightarrow> forEach (emit_callback beh event d) (\<lambda>_. []) \<sigma>
      | Some r \<Rightarrow> forEach (emit_callback beh event d) (\<lambda>\<sigma>'. arrays (service \<sigma>') ! r) \<sigma>)"

text \<open>
  The same handlers, none of which throws.
\<close>

definition no_throw :: "('h, 'd, 'w) behaviour \<Rightarrow> ('h, 'd, 'w) behaviour" where
  "no_throw beh = (\<lambda>h d w. case beh h d w of (cs, thrown, w') \<Rightarrow> (cs, None, w'))"

text \<open>
  The calls of a handler that leave the handlers of \<open>event\<close> in their places: all but
  \<open>off(event, handler)\<close>.
\<close>

fun keeps_array :: "string \<Rightarrow> 'h call \<Rightarrow> bool" where
  "keeps_array event (CallOff e (Some h)) = (e \<noteq> event)"
| "keeps_array event _ = True"

text \<open>
  The state of the registry while \<open>emit\<close> walks the array at address \<open>r\<close>, which
  held \<open>xs\<close> when the walk began and was stored under \<open>event\<close>: the array still
  begins with \<open>xs\<close>, and no other event is stored at \<open>r\<close>.
\<close>

definition iterating :: "string \<Rightarrow> nat \<Rightarrow> 'h list \<Rightarrow> 'h WebSocketService \<Rightarrow> bool" where
  "iterating event r xs s =
     (well_stored s \<and> r < length (arrays s)
      \<and> take (length xs) (arrays s ! r) = xs
      \<and> (\<forall>e. map_of (eventHandlers s) e = Some r \<longrightarrow> e = event))"

text \<open>
  A runtime around a service, with nothing delivered and nothing logged yet.
\<close>

definition start :: "'h WebSocketService \<Rightarrow> 'w \<Rightarrow> ('h, 'd, 'w) runtime" where
  "start s w = \<lparr> service = s, world = w, delivered = [], console = [] \<rparr>"



section \<open>The task store of the server\<close>

text \<open>
  The client reaches the server's cancellation through \<open>ApiService.cancelTask\<close>, which
  posts to \<open>/api/v1/tasks/{id}/cancel\<close> and returns the body of the answer; the
  parameter is the settled promise of \<open>this.api.post\<close>. No slice of the client's
  store has a case for it.
\<close>

definition cancelTask :: "string \<Rightarrow> string + json \<Rightarrow> string + json" where
  "cancelTask i posted = (case posted of Inl m \<Rightarrow> Inl m | Inr response_data \<Rightarrow> Inr response_data)"

text \<open>
  Modelled from the spec: the seven statuses of a task of the task store (section 3), of
  which the client's \<open>Task\<close> type has five. The store and its operations are code of the
  server, which is not among the sources.
\<close>

datatype spec_status =
  SPending | SDecomposed | SReady | SRunning | SCompleted | SFailed | SCancelled

fun spec_of :: "task_status \<Rightarrow> spec_status" where
  "spec_of Pending = SPending"
| "spec_of Running = SRunning"
| "spec_of Completed = SCompleted"
| "spec_of Failed = SFailed"
| "spec_of Cancelled = SCancelled"

text \<open>
  Modelled from the spec: the valid edges of the state machine (section 4.2):
  pending to decomposed, pending to ready, decomposed to ready, ready to running,
  running to completed, running to failed, and pending, ready or running to cancelled.
\<close>

fun valid_edge :: "spec_status \<Rightarrow> spec_status \<Rightarrow> bool" where
  "valid_edge SPending SDecomposed = True"
| "valid_edge SPending SReady = True"
| "valid_edge SDecomposed SReady = True"
| "valid_edge SReady SRunning = True"
| "valid_edge SRunning SCompleted = True"
| "valid_edge SRunning SFailed = True"
| "valid_edge SPending SCancelled = True"
| "valid_edge SReady SCancelled = True"
| "valid_edge SRunning SCancelled = True"
| "valid_edge _ _ = False"

text \<open>
  Modelled from the spec: the task of the task store (section 3): identifier, type,
  priority, status, optional parent, dependencies, assigned agent, result and error.
\<close>

record StoreTask =
  st_id :: string
  st_type :: string
  st_priority :: priority
  st_status :: spec_status
  st_parent :: "string option"
  st_dependencies :: "string list"
  st_agent :: "string option"
  st_result :: "json option"
  st_error :: "string option"

datatype store_error = UnknownTask | InvalidTransition | InvalidDependency

text \<open>
  Modelled from the spec: the descendants of a task are its children (the tasks that
  name it as their parent) and the descendants of its children.
  \<open>descendant store d a\<close>: the task with identifier \<open>d\<close> is a descendant of \<open>a\<close>.
\<close>

inductive descendant :: "StoreTask list \<Rightarrow> string \<Rightarrow> string \<Rightarrow> bool" for store where
  child: "t \<in> set store \<Longrightarrow> st_parent t = Some a \<Longrightarrow> descendant store (st_id t) a"
| below: "t \<in> set store \<Longrightarrow> st_parent t = Some p \<Longrightarrow> descendant store p a
            \<Longrightarrow> descendant store (st_id t) a"

code_pred descendant .

text \<open>
  Modelled from the spec: cancellation (section 4.2). An unknown identifier is
  \<open>UnknownTask\<close>; a task that has no edge to cancelled is \<open>InvalidTransition\<close>, and
  nothing is applied. Otherwise the task and each of its descendants that can be cancelled
  (has an edge to cancelled) become cancelled, in one step; a descendant that cannot be
  cancelled is left untouched.
\<close>

definition cancel :: "StoreTask list \<Rightarrow> string \<Rightarrow> store_error + StoreTask list" where
  "cancel store tid =
     (case find (\<lambda>t. st_id t = tid) store of
        None \<Rightarrow> Inl UnknownTask
      | Some t \<Rightarrow>
          if \<not> valid_edge (st_status t) SCancelled then Inl InvalidTransition
          else Inr (map (\<lambda>u. if (st_id u = tid \<or> descendant store (st_id u) tid)
                                  \<and> valid_edge (st_status u) SCancelled
                               then u\<lparr>st_status := SCancelled\<rparr> else u) store))"


section \<open>Example values\<close>

definition done_task :: Task where
  "done_task =
     \<lparr> task_id = ''t1'', title = ''report'', description = [], task_type = ''analysis'',
       priority = Medium, status = Completed, agent_id = Some ''a1'',
       created_at = ''2025-01-01'', updated_at = ''2025-01-02'', user_id = ''u1'',
       result = JStr ''ok'', dependencies = [] \<rparr>"

definition idle_task :: Task where
  "idle_task =
     \<lparr> task_id = ''t2'', title = ''draft'', description = [], task_type = ''generation'',
       priority = High, status = Pending, agent_id = None,
       created_at = ''2025-01-03'', updated_at = ''2025-01-03'', user_id = ''u1'',
       result = JNull, dependencies = [''ghost''] \<rparr>"

definition closed_page :: TasksPage where
  "closed_page =
     \<lparr> viewMode = TableView, dialogOpen = False, editingTask = None, formData = empty_form \<rparr>"

definition store_task :: "string \<Rightarrow> spec_status \<Rightarrow> string option \<Rightarrow> StoreTask" where
  "store_task i st par =
     \<lparr> st_id = i, st_type = ''research'', st_priority = Medium, st_status = st,
       st_parent = par, st_dependencies = [], st_agent = None, st_result = None,
       st_error = None \<rparr>"

definition family_store :: "StoreTask list" where
  "family_store =
     [ store_task ''p'' SRunning None,
       store_task ''c1'' SPending (Some ''p''),
       store_task ''c2'' SCompleted (Some ''p''),
       store_task ''g'' SReady (Some ''c2''),
       store_task ''u'' SPending None ]"

definition session_with_id :: "string \<Rightarrow> ChatSession" where
  "session_with_id i =
     \<lparr> session_id = i, session_title = ''chat'', session_created_at = ''2025-01-01'',
       session_updated_at = ''2025-01-01'', session_user_id = ''u1'',
       session_agent_id = None, session_messages = [] \<rparr>"

definition hello_message :: ChatMessage where
  "hello_message =
     \<lparr> message_id = ''m1'', content = ''hello'', role = User, timestamp = ''2025-01-01'',
       message_session_id = ''s1'', message_agent_id = None, metadata = None \<rparr>"


definition reopened_task :: Task where
  "reopened_task = done_task\<lparr>status := Pending\<rparr>"

definition retitled_task :: Task where
  "retitled_task = done_task\<lparr>title := ''changed''\<rparr>"



definition done_state :: TasksState where
  "done_state = initialState\<lparr>tasks := [done_task]\<rparr>"

text \<open>
  A request to take the completed task back to pending, and a request to create a task
  that depends on an identifier no task has.
\<close>

definition reopen_request :: "string \<times> PartialTask" where
  "reopen_request =
     (''t1'', (form_updates (formData (handleEditTask done_task closed_page)))\<lparr>p_status := Some Pending\<rparr>)"

definition ghost_request :: NewTask where
  "ghost_request = form_taskData (empty_form\<lparr>form_title := ''draft'', form_dependencies := [''ghost'']\<rparr>)"

text \<open>
  The page after the user has opened the completed task and typed a new title.
\<close>

definition retitle_page :: TasksPage where
  "retitle_page = apply_edit (handleEditTask done_task closed_page) (EditTitle ''changed'')"

definition chat_state :: "ChatSession option \<Rightarrow> ChatState" where
  "chat_state cur =
     \<lparr> sessions = [session_with_id ''s1'', session_with_id ''s2'', session_with_id ''s1''],
       currentSession = cur, messages = [hello_message], chat_loading = False,
       chat_error = None, isStreaming = True \<rparr>"

text \<open>
  Registries: one handler registered twice, two handlers registered once each. Handlers:
  one where handler 1 unsubscribes itself when called, and one where every handler throws.
\<close>

definition twice_registered :: "nat WebSocketService" where
  "twice_registered = on ''e'' 1 (on ''e'' 1 new_service)"

definition two_handlers :: "nat WebSocketService" where
  "two_handlers = on ''e'' 2 (on ''e'' 1 new_service)"

definition self_removing :: "(nat, 'd, unit) behaviour" where
  "self_removing h d w = (if h = 1 then ([CallOff ''e'' (Some 1)], None, w) else ([], None, w))"

definition all_throwing :: "(nat, 'd, unit) behaviour" where
  "all_throwing h d w = ([], Some ''boom'', w)"

text \<open>
  Handlers where handler 1, when called, unsubscribes itself and then throws.
\<close>

definition removing_and_throwing :: "(nat, 'd, unit) behaviour" where
  "removing_and_throwing h d w =
     (if h = 1 then ([CallOff ''e'' (Some 1)], Some ''boom'', w) else ([], None, w))"

text \<open>
  Two runtimes agree on everything but the console.
\<close>

definition same_but_console :: "('h, 'd, 'w) runtime \<Rightarrow> ('h, 'd, 'w) runtime \<Rightarrow> bool" where
  "same_but_console \<sigma>1 \<sigma>2 =
     (service \<sigma>1 = service \<sigma>2 \<and> world \<sigma>1 = world \<sigma>2 \<and> delivered \<sigma>1 = delivered \<sigma>2)"


section \<open>Facts about the shared idioms\<close>

lemma findIndex_Some:
  "findIndex p xs = Some i \<Longrightarrow> i < length xs \<and> p (xs ! i) \<and> (\<forall>j<i. \<not> p (xs ! j))"
proof (induction xs arbitrary: i)
  case Nil
  then show ?case by simp
next
  case (Cons x xs)
  show ?case
  proof (cases "p x")
    case True
    with Cons.prems show ?thesis by simp
  next
    case False
    with Cons.prems obtain k where k: "findIndex p xs = Some k" "i = Suc k"
      by (auto split: option.splits)
    from Cons.IH[OF k(1)] False k(2) show ?thesis
      by (auto simp: less_Suc_eq_0_disj)
  qed
qed

lemma findIndex_None: "findIndex p xs = None \<longleftrightarrow> (\<forall>x\<in>set xs. \<not> p x)"
  by (induction xs) (auto split: option.splits)

lemma indexOf_None: "indexOf xs h = None \<longleftrightarrow> h \<notin> set xs"
  by (auto simp: indexOf_def findIndex_None)

lemma splice1_indexOf: "indexOf xs h = Some i \<Longrightarrow> splice1 i xs = remove1 h xs"
  unfolding indexOf_def splice1_def
proof (induction xs arbitrary: i)
  case Nil
  then show ?case by simp
next
  case (Cons x xs)
  then show ?case
    by (auto split: if_splits option.splits)
qed


section \<open>Task statuses\<close>

text \<open>
  C1, as the code has it. Every task's status is one of the five values pending,
  running, completed, failed, cancelled; no status of the \<open>Task\<close> type is written
  \<open>decomposed\<close> or \<open>ready\<close>.
\<close>

theorem task_status_five_values:
  "status_name (status (t :: Task)) \<in>
       {''pending'', ''running'', ''completed'', ''failed'', ''cancelled''}
   \<and> status_name (status t) \<noteq> ''decomposed''
   \<and> status_name (status t) \<noteq> ''ready''"
  by (cases "status t") simp_all

text \<open>
  C1 as stated fails: \<open>decomposed\<close> and \<open>ready\<close> are not both names of a member of
  the \<open>status\<close> union.
\<close>

theorem task_status_seven_values_counterexample:
  "\<not> (''decomposed'' \<in> range status_name \<and> ''ready'' \<in> range status_name)"
proof -
  have "status_name st \<noteq> ''decomposed''" for st
    by (cases st) simp_all
  then have "''decomposed'' \<notin> range status_name"
    by (metis rangeE)
  then show ?thesis
    by simp
qed


section \<open>Updating a task\<close>

text \<open>
  C2, as the code has it. A status update is not checked against any state machine. What
  \<open>updateTask\<close> returns does not depend on the request, so not on the requested status;
  it fails when the response is not ok, then with the message \<open>Failed to update task\<close>,
  and a failed update leaves the state as it was. When it succeeds, the first stored task
  with the identifier of the returned task is replaced by the returned task, whatever the
  statuses of the two, and nothing else changes; with no such task the state is unchanged.
\<close>

theorem updateTask_no_transition_check:
  "updateTask arg out = updateTask arg' out
   \<and> updateTask arg (HttpResponse False body) = Inl ''Failed to update task''
   \<and> updateTask arg (HttpResponse True (Inr t)) = Inr t
   \<and> (\<forall>m. updateTask arg out = Inl m \<longrightarrow> dispatch_updateTask s arg out = s)
   \<and> (\<forall>t' i. updateTask arg out = Inr t' \<longrightarrow>
         findIndex (\<lambda>task. task_id task = task_id t') (tasks s) = Some i \<longrightarrow>
         dispatch_updateTask s arg out = s\<lparr>tasks := (tasks s)[i := t']\<rparr>)
   \<and> (\<forall>t'. updateTask arg out = Inr t' \<longrightarrow>
         findIndex (\<lambda>task. task_id task = task_id t') (tasks s) = None \<longrightarrow>
         dispatch_updateTask s arg out = s)"
  by (simp add: updateTask_def dispatch_updateTask_def replace_task_def)

text \<open>
  Through the page the requested status is always the status the task already has: the
  dialog copies it from the task and has no field that changes it. A request for another
  status comes from a caller of the thunk itself.
\<close>

lemma edits_keep_task_and_status:
  "editingTask (foldl apply_edit page edits) = editingTask page
   \<and> form_status (formData (foldl apply_edit page edits)) = form_status (formData page)"
proof (induction edits arbitrary: page)
  case Nil
  show ?case by simp
next
  case (Cons e edits)
  have "editingTask (apply_edit page e) = editingTask page
        \<and> form_status (formData (apply_edit page e)) = form_status (formData page)"
    by (cases e) simp_all
  with Cons.IH[of "apply_edit page e"] show ?case
    by simp
qed

lemma saved_status_is_current:
  "\<exists>u. fst (handleSaveTask (foldl apply_edit (handleEditTask t page) edits))
          = DispatchUpdateTask (task_id t, u) \<and> p_status u = Some (status t)"
  using edits_keep_task_and_status[of "handleEditTask t page" edits]
  by (simp add: handleSaveTask_def handleEditTask_def form_updates_def)

text \<open>
  The update of C2 at a concrete input: the completed task \<open>t1\<close> is asked back to
  pending, and the server answers with the task as pending.
\<close>

theorem updateTask_no_transition_check_witness:
  "updateTask reopen_request (HttpResponse True (Inr reopened_task)) = Inr reopened_task
   \<and> findIndex (\<lambda>task. task_id task = task_id reopened_task) (tasks done_state) = Some 0
   \<and> dispatch_updateTask done_state reopen_request (HttpResponse True (Inr reopened_task))
       = done_state\<lparr>tasks := [reopened_task]\<rparr>"
  using updateTask_no_transition_check
    [where arg = reopen_request and out = "HttpResponse True (Inr reopened_task)"
       and s = done_state and t = reopened_task]
  by (simp add: done_state_def reopened_task_def done_task_def)

text \<open>
  C2 as stated fails: completed has no edge to pending, yet the update that asks for
  pending succeeds and the stored task becomes pending.
\<close>

theorem updateTask_invalid_transition_counterexample:
  "\<not> valid_edge (spec_of (status done_task)) (spec_of Pending)
   \<and> p_status (snd reopen_request) = Some Pending
   \<and> map status (tasks done_state) = [Completed]
   \<and> updateTask reopen_request (HttpResponse True (Inr reopened_task)) = Inr reopened_task
   \<and> map status (tasks (dispatch_updateTask done_state reopen_request
                          (HttpResponse True (Inr reopened_task)))) = [Pending]"
  by (simp add: done_task_def reopen_request_def done_state_def reopened_task_def
      updateTask_def dispatch_updateTask_def replace_task_def)


section \<open>Running tasks and their agent\<close>









section \<open>Tasks that have ended\<close>

text \<open>
  C4, as the code has it. The page guards running tasks only: Edit and Delete are
  disabled exactly for a running task, and Execute is offered exactly for a pending task.
  So for a task that is completed, failed or cancelled, Edit and Delete are enabled and
  Execute is absent; saving the dialog opened on it dispatches an update for its
  identifier; a fulfilled update replaces it in the store by the task the server returns,
  and a fulfilled delete removes it.
\<close>

theorem ended_task_edit_and_delete:
  assumes "status t \<in> {Completed, Failed, Cancelled}"
    and "findIndex (\<lambda>task. task_id task = task_id t) (tasks s) = Some i"
    and "task_id t' = task_id t"
  shows "((EditButton, True) \<in> set (renderTaskActions u) \<longleftrightarrow> status u = Running)
         \<and> ((DeleteButton, True) \<in> set (renderTaskActions u) \<longleftrightarrow> status u = Running)
         \<and> ((ExecuteButton, False) \<in> set (renderTaskActions u) \<longleftrightarrow> status u = Pending)
         \<and> renderTaskActions t = [(EditButton, False), (DeleteButton, False)]
         \<and> fst (handleSaveTask (handleEditTask t page))
             = DispatchUpdateTask (task_id t, form_updates (formData (handleEditTask t page)))
         \<and> tasks (dispatch_updateTask s arg (HttpResponse True (Inr t'))) = (tasks s)[i := t']
         \<and> tasks (dispatch_updateTask s arg (HttpResponse True (Inr t'))) ! i = t'
         \<and> handleDeleteTask True (task_id t) = Some (DispatchDeleteTask (task_id t))
         \<and> tasks (dispatch_deleteTask s (task_id t) (HttpResponse True body))
             = filter (\<lambda>task. task_id task \<noteq> task_id t) (tasks s)"
proof -
  have "((EditButton, True) \<in> set (renderTaskActions u) \<longleftrightarrow> status u = Running)
         \<and> ((DeleteButton, True) \<in> set (renderTaskActions u) \<longleftrightarrow> status u = Running)
         \<and> ((ExecuteButton, False) \<in> set (renderTaskActions u) \<longleftrightarrow> status u = Pending)"
    by (simp add: renderTaskActions_def)
  moreover from assms(1) have "renderTaskActions t = [(EditButton, False), (DeleteButton, False)]"
    by (auto simp: renderTaskActions_def)
  moreover have "fst (handleSaveTask (handleEditTask t page))
             = DispatchUpdateTask (task_id t, form_updates (formData (handleEditTask t page)))"
    by (simp add: handleSaveTask_def handleEditTask_def)
  moreover from assms(2,3)
  have u: "tasks (dispatch_updateTask s arg (HttpResponse True (Inr t'))) = (tasks s)[i := t']"
    by (simp add: dispatch_updateTask_def updateTask_def replace_task_def)
  moreover from findIndex_Some[OF assms(2)] u
  have "tasks (dispatch_updateTask s arg (HttpResponse True (Inr t'))) ! i = t'"
    by simp
  moreover have "handleDeleteTask True (task_id t) = Some (DispatchDeleteTask (task_id t))"
    by (simp add: handleDeleteTask_def)
  moreover have "tasks (dispatch_deleteTask s (task_id t) (HttpResponse True body))
             = filter (\<lambda>task. task_id task \<noteq> task_id t) (tasks s)"
    by (simp add: dispatch_deleteTask_def)
  ultimately show ?thesis
    by simp
qed

text \<open>
  C4 at a concrete input: the completed task \<open>t1\<close>, stored alone, with a new title.
\<close>

theorem ended_task_edit_and_delete_witness:
  "status done_task \<in> {Completed, Failed, Cancelled}
   \<and> findIndex (\<lambda>task. task_id task = task_id done_task) (tasks done_state) = Some 0
   \<and> task_id retitled_task = task_id done_task
   \<and> renderTaskActions done_task = [(EditButton, False), (DeleteButton, False)]
   \<and> tasks (dispatch_updateTask done_state (task_id done_task, form_updates (formData retitle_page))
              (HttpResponse True (Inr retitled_task))) = [retitled_task]
   \<and> tasks (dispatch_deleteTask done_state (task_id done_task) (HttpResponse True (Inr ()))) = []"
proof -
  have a: "status done_task \<in> {Completed, Failed, Cancelled}"
    by (simp add: done_task_def)
  have b: "findIndex (\<lambda>task. task_id task = task_id done_task) (tasks done_state) = Some 0"
    by (simp add: done_state_def)
  have c: "task_id retitled_task = task_id done_task"
    by (simp add: retitled_task_def)
  from ended_task_edit_and_delete[OF a b c,
      where arg = "(task_id done_task, form_updates (formData retitle_page))"
        and body = "Inr ()" and page = closed_page]
  show ?thesis
    using a b c by (simp add: done_state_def)
qed

text \<open>
  C4 as stated fails: the completed task \<open>t1\<close> has its Edit button enabled; the user
  opens it, types a new title and saves; the page dispatches the update, the server
  answers with the retitled task, and the stored task is no longer what it was.
\<close>

theorem ended_task_immutable_counterexample:
  "status done_task = Completed
   \<and> tasks done_state = [done_task]
   \<and> (EditButton, False) \<in> set (renderTaskActions done_task)
   \<and> fst (handleSaveTask retitle_page)
       = DispatchUpdateTask (''t1'', form_updates (formData retitle_page))
   \<and> p_title (form_updates (formData retitle_page)) = Some ''changed''
   \<and> tasks (dispatch_updateTask done_state (''t1'', form_updates (formData retitle_page))
              (HttpResponse True (Inr retitled_task))) = [retitled_task]
   \<and> retitled_task \<noteq> done_task"
  by (simp add: done_task_def done_state_def renderTaskActions_def handleSaveTask_def
      retitle_page_def handleEditTask_def form_updates_def retitled_task_def
      dispatch_updateTask_def updateTask_def replace_task_def)


section \<open>Creating a task\<close>

text \<open>
  C5, as the code has it. Creation is not checked against the dependencies of the
  request: what \<open>createTask\<close> returns does not depend on the request. It fails when the
  response is not ok, then with the message \<open>Failed to create task\<close>; a failed creation
  leaves the list of tasks exactly as it was, and sets \<open>loading\<close> to false and \<open>error\<close>
  to the message. A creation that succeeds appends the task the server returns.
\<close>

theorem createTask_no_dependency_check:
  "createTask taskData out = createTask taskData' out
   \<and> createTask taskData (HttpResponse False body) = Inl ''Failed to create task''
   \<and> (\<forall>m. createTask taskData out = Inl m \<longrightarrow>
         tasks (dispatch_createTask s taskData out) = tasks s
         \<and> dispatch_createTask s taskData out
             = s\<lparr>loading := False, error := Some (or_else m ''Failed to create task'')\<rparr>)
   \<and> (\<forall>t. createTask taskData out = Inr t \<longrightarrow>
         dispatch_createTask s taskData out
           = s\<lparr>loading := False, error := None, tasks := tasks s @ [t]\<rparr>)"
  by (simp add: createTask_def dispatch_createTask_def)

text \<open>
  C5 at a concrete input: the server refuses the request that names the unknown
  dependency.
\<close>

theorem createTask_no_dependency_check_witness:
  "createTask ghost_request (HttpResponse False (Inl [])) = Inl ''Failed to create task''
   \<and> tasks (dispatch_createTask done_state ghost_request (HttpResponse False (Inl [])))
       = [done_task]
   \<and> error (dispatch_createTask done_state ghost_request (HttpResponse False (Inl [])))
       = Some ''Failed to create task''
   \<and> loading (dispatch_createTask done_state ghost_request (HttpResponse False (Inl [])))
       = False"
  using createTask_no_dependency_check
    [where taskData = ghost_request and out = "HttpResponse False (Inl [])"
       and body = "Inl []" and s = done_state]
  by (simp add: done_state_def or_else_def)

text \<open>
  C5 as stated fails: no task has the identifier \<open>ghost\<close>, the request depends on it,
  and when the server answers with the created task the creation succeeds and the list of
  tasks grows.
\<close>

theorem createTask_unknown_dependency_counterexample:
  "''ghost'' \<notin> set (map task_id (tasks initialState))
   \<and> n_dependencies ghost_request = [''ghost'']
   \<and> createTask ghost_request (HttpResponse True (Inr idle_task)) = Inr idle_task
   \<and> tasks (dispatch_createTask initialState ghost_request (HttpResponse True (Inr idle_task)))
       = [idle_task]
   \<and> tasks (dispatch_createTask initialState ghost_request (HttpResponse True (Inr idle_task)))
       \<noteq> tasks initialState"
  by (simp add: initialState_def ghost_request_def form_taskData_def createTask_def
      dispatch_createTask_def)


section \<open>Deleting a chat session\<close>

text \<open>
  C10. For every chat state and session identifier, \<open>deleteChatSession.fulfilled\<close>
  removes from the list exactly the sessions with that identifier and keeps the others
  in their order; when the current session has that identifier, the current session
  becomes null and the messages empty; otherwise both are unchanged. The other fields are
  never changed.
\<close>

theorem deleteChatSession_fulfilled_effect:
  "sessions (deleteChatSession_fulfilled st sid)
     = filter (\<lambda>x. session_id x \<noteq> sid) (sessions st)
   \<and> (\<forall>x. x \<in> set (sessions (deleteChatSession_fulfilled st sid))
           \<longleftrightarrow> x \<in> set (sessions st) \<and> session_id x \<noteq> sid)
   \<and> ((\<exists>c. currentSession st = Some c \<and> session_id c = sid) \<longrightarrow>
         currentSession (deleteChatSession_fulfilled st sid) = None
         \<and> messages (deleteChatSession_fulfilled st sid) = [])
   \<and> (\<not> (\<exists>c. currentSession st = Some c \<and> session_id c = sid) \<longrightarrow>
         currentSession (deleteChatSession_fulfilled st sid) = currentSession st
         \<and> messages (deleteChatSession_fulfilled st sid) = messages st)
   \<and> chat_loading (deleteChatSession_fulfilled st sid) = chat_loading st
   \<and> chat_error (deleteChatSession_fulfilled st sid) = chat_error st
   \<and> isStreaming (deleteChatSession_fulfilled st sid) = isStreaming st"
  by (cases "currentSession st") (auto simp: deleteChatSession_fulfilled_def Let_def)

text \<open>
  C10 at concrete inputs: the session \<open>s1\<close>, listed twice, is deleted while it is the
  current session, while \<open>s2\<close> is, and while there is none.
\<close>

theorem deleteChatSession_fulfilled_effect_witness:
  "map session_id (sessions (deleteChatSession_fulfilled
       (chat_state (Some (session_with_id ''s1''))) ''s1'')) = [''s2'']
   \<and> currentSession (deleteChatSession_fulfilled
       (chat_state (Some (session_with_id ''s1''))) ''s1'') = None
   \<and> messages (deleteChatSession_fulfilled
       (chat_state (Some (session_with_id ''s1''))) ''s1'') = []
   \<and> currentSession (deleteChatSession_fulfilled
       (chat_state (Some (session_with_id ''s2''))) ''s1'') = Some (session_with_id ''s2'')
   \<and> messages (deleteChatSession_fulfilled
       (chat_state (Some (session_with_id ''s2''))) ''s1'') = [hello_message]
   \<and> currentSession (deleteChatSession_fulfilled (chat_state None) ''s1'') = None
   \<and> messages (deleteChatSession_fulfilled (chat_state None) ''s1'') = [hello_message]"
  using deleteChatSession_fulfilled_effect[of "chat_state (Some (session_with_id ''s1''))" "''s1''"]
    deleteChatSession_fulfilled_effect[of "chat_state (Some (session_with_id ''s2''))" "''s1''"]
    deleteChatSession_fulfilled_effect[of "chat_state None" "''s1''"]
  by (simp add: chat_state_def session_with_id_def)


section \<open>Cancelling a task and its descendants\<close>

lemma family_descendants:
  "descendant family_store ''c1'' ''p''"
  "descendant family_store ''c2'' ''p''"
  "descendant family_store ''g'' ''p''"
proof -
  show "descendant family_store ''c1'' ''p''"
    using descendant.child[of "store_task ''c1'' SPending (Some ''p'')" family_store "''p''"]
    by (simp add: family_store_def store_task_def)
  show c2: "descendant family_store ''c2'' ''p''"
    using descendant.child[of "store_task ''c2'' SCompleted (Some ''p'')" family_store "''p''"]
    by (simp add: family_store_def store_task_def)
  show "descendant family_store ''g'' ''p''"
    using descendant.below[of "store_task ''g'' SReady (Some ''c2'')" family_store "''c2''" "''p''"] c2
    by (simp add: family_store_def store_task_def)
qed

text \<open>
  C6. For every task of the store that can be cancelled, cancelling it succeeds and gives,
  in one step, a store of the same tasks in the same places in which every descendant that
  was pending, ready or running is cancelled, with nothing but its status changed, and
  every descendant that was completed is as it was.
\<close>

theorem cancel_cascades:
  assumes "find (\<lambda>t. st_id t = tid) store = Some t"
    and "valid_edge (st_status t) SCancelled"
  shows "\<exists>store'. cancel store tid = Inr store' \<and> length store' = length store \<and>
           (\<forall>i<length store. descendant store (st_id (store ! i)) tid \<longrightarrow>
              (st_status (store ! i) \<in> {SPending, SReady, SRunning}
                 \<longrightarrow> store' ! i = (store ! i)\<lparr>st_status := SCancelled\<rparr>) \<and>
              (st_status (store ! i) = SCompleted \<longrightarrow> store' ! i = store ! i))"
  using assms by (auto simp: cancel_def)

text \<open>
  C6 at a concrete input: the running task \<open>p\<close> has a pending child \<open>c1\<close> and a
  completed child \<open>c2\<close>, which has a ready child \<open>g\<close>.
\<close>

theorem cancel_cascades_witness:
  "find (\<lambda>t. st_id t = ''p'') family_store = Some (store_task ''p'' SRunning None)
   \<and> valid_edge (st_status (store_task ''p'' SRunning None)) SCancelled
   \<and> (\<exists>store'. cancel family_store ''p'' = Inr store'
        \<and> st_status (store' ! 1) = SCancelled
        \<and> st_status (store' ! 2) = SCompleted
        \<and> st_status (store' ! 3) = SCancelled)"
proof -
  have f: "find (\<lambda>t. st_id t = ''p'') family_store = Some (store_task ''p'' SRunning None)"
    by (simp add: family_store_def store_task_def)
  have v: "valid_edge (st_status (store_task ''p'' SRunning None)) SCancelled"
    by (simp add: store_task_def)
  from cancel_cascades[OF f v] obtain store' where
    c: "cancel family_store ''p'' = Inr store'" and
    d: "\<forall>i<length family_store. descendant family_store (st_id (family_store ! i)) ''p'' \<longrightarrow>
              (st_status (family_store ! i) \<in> {SPending, SReady, SRunning}
                 \<longrightarrow> store' ! i = (family_store ! i)\<lparr>st_status := SCancelled\<rparr>) \<and>
              (st_status (family_store ! i) = SCompleted \<longrightarrow> store' ! i = family_store ! i)"
    by blast
  have "st_status (store' ! 1) = SCancelled"
    using d[rule_format, of 1] family_descendants(1)
    by (simp add: family_store_def store_task_def)
  moreover have "st_status (store' ! 2) = SCompleted"
    using d[rule_format, of 2] family_descendants(2)
    by (simp add: family_store_def store_task_def)
  moreover have "st_status (store' ! 3) = SCancelled"
    using d[rule_format, of 3] family_descendants(3)
    by (simp add: family_store_def store_task_def)
  ultimately show ?thesis
    using f v c by blast
qed


section \<open>The registry: facts\<close>

lemma two_handlers_eq: "two_handlers = \<lparr> eventHandlers = [(''e'', 0)], arrays = [[1, 2]] \<rparr>"
  by (simp add: two_handlers_def on_def new_service_def)

lemma twice_registered_eq:
  "twice_registered = \<lparr> eventHandlers = [(''e'', 0)], arrays = [[1, 1]] \<rparr>"
  by (simp add: twice_registered_def on_def new_service_def)

lemma well_stored_new: "well_stored new_service"
  by (simp add: well_stored_def new_service_def)

lemma well_stored_lookup:
  "well_stored s \<Longrightarrow> map_of (eventHandlers s) event = Some r \<Longrightarrow> r < length (arrays s)"
  by (force simp: well_stored_def dest: map_of_SomeD)

lemma well_stored_same_address:
  assumes "well_stored s"
    and "map_of (eventHandlers s) e1 = Some r" and "map_of (eventHandlers s) e2 = Some r"
  shows "e1 = e2"
proof -
  from assms(2,3) have "(e1, r) \<in> set (eventHandlers s)" "(e2, r) \<in> set (eventHandlers s)"
    by (auto dest: map_of_SomeD)
  moreover from assms(1) have "inj_on snd (set (eventHandlers s))"
    by (simp add: well_stored_def distinct_map)
  ultimately show ?thesis
    using inj_onD[of snd "set (eventHandlers s)" "(e1, r)" "(e2, r)"] by simp
qed

lemma update_fresh: "map_of al k = None \<Longrightarrow> AList.update k v al = al @ [(k, v)]"
  by (induction al) (auto split: if_splits)

lemma well_stored_on: "well_stored s \<Longrightarrow> well_stored (on event h s)"
proof (cases "map_of (eventHandlers s) event")
  case None
  assume "well_stored s"
  with None show ?thesis
    by (auto simp: well_stored_def on_def update_fresh intro: less_SucI)
next
  case (Some r)
  assume "well_stored s"
  with Some show ?thesis
    by (simp add: well_stored_def on_def update_triv)
qed

lemma well_stored_off: "well_stored s \<Longrightarrow> well_stored (off event h s)"
proof (cases h)
  case None
  assume "well_stored s"
  with None show ?thesis
    by (auto simp: well_stored_def off_def AList.delete_eq distinct_map_filter)
next
  case (Some g)
  assume "well_stored s"
  with Some show ?thesis
    by (auto simp: well_stored_def off_def update_triv split: option.splits)
qed

lemma well_stored_run_calls: "well_stored s \<Longrightarrow> well_stored (run_calls cs s)"
proof (induction cs arbitrary: s)
  case Nil
  then show ?case by (simp add: run_calls_def)
next
  case (Cons c cs)
  from Cons.prems have "well_stored (run_call c s)"
    by (cases c) (simp_all add: well_stored_on well_stored_off)
  with Cons.IH[of "run_call c s"] show ?case
    by (simp add: run_calls_def)
qed

lemma count_remove1: "count_list xs h \<le> 1 \<Longrightarrow> h \<notin> set (remove1 h xs)"
  by (induction xs) (auto simp: count_list_0_iff split: if_splits)

lemma count_list_pos: "1 \<le> count_list xs h \<Longrightarrow> h \<in> set xs"
  using count_list_0_iff[of xs h] by auto

lemma count_remove1_twice: "2 \<le> count_list xs h \<Longrightarrow> h \<in> set (remove1 h xs)"
  by (induction xs) (auto simp: count_list_pos split: if_splits)

lemma off_Some_stored:
  assumes "map_of (eventHandlers s) event = Some r" and "r < length (arrays s)"
  shows "off event (Some h) s = s\<lparr>arrays := (arrays s)[r := remove1 h (arrays s ! r)]\<rparr>"
proof (cases "indexOf (arrays s ! r) h")
  case None
  then have "remove1 h (arrays s ! r) = arrays s ! r"
    by (simp add: indexOf_None remove1_idem)
  with None assms show ?thesis
    by (simp add: off_def)
next
  case (Some i)
  with assms show ?thesis
    by (simp add: off_def update_triv splice1_indexOf)
qed

lemma off_Some_beyond:
  assumes "map_of (eventHandlers s) event = Some r" and "\<not> r < length (arrays s)"
  shows "off event (Some h) s = s"
  using assms by (simp add: off_def update_triv list_update_beyond not_less split: option.splits)

lemma off_Some_again:
  assumes "count_list (handlers_of s event) h \<le> 1"
  shows "off event (Some h) (off event (Some h) s) = off event (Some h) s"
proof (cases "map_of (eventHandlers s) event")
  case None
  then show ?thesis by (simp add: off_def)
next
  case (Some r)
  show ?thesis
  proof (cases "r < length (arrays s)")
    case False
    with Some show ?thesis by (simp add: off_Some_beyond)
  next
    case True
    let ?s' = "s\<lparr>arrays := (arrays s)[r := remove1 h (arrays s ! r)]\<rparr>"
    have first: "off event (Some h) s = ?s'"
      using Some True by (rule off_Some_stored)
    have "handlers_of s event = arrays s ! r"
      using Some by (simp add: handlers_of_def)
    with assms have "h \<notin> set (remove1 h (arrays s ! r))"
      by (simp add: count_remove1)
    then have "remove1 h (remove1 h (arrays s ! r)) = remove1 h (arrays s ! r)"
      by (rule remove1_idem)
    moreover have "off event (Some h) ?s'
        = ?s'\<lparr>arrays := (arrays ?s')[r := remove1 h (arrays ?s' ! r)]\<rparr>"
      using Some True by (intro off_Some_stored) simp_all
    ultimately have "off event (Some h) ?s' = ?s'"
      using True by simp
    with first show ?thesis by simp
  qed
qed

lemma off_Some_twice_differs:
  assumes "map_of (eventHandlers s) event = Some r" and "r < length (arrays s)"
    and "2 \<le> count_list (handlers_of s event) h"
  shows "off event (Some h) (off event (Some h) s) \<noteq> off event (Some h) s"
proof -
  let ?xs = "remove1 h (arrays s ! r)"
  let ?s' = "s\<lparr>arrays := (arrays s)[r := ?xs]\<rparr>"
  have first: "off event (Some h) s = ?s'"
    using assms(1,2) by (rule off_Some_stored)
  have "handlers_of s event = arrays s ! r"
    using assms(1) by (simp add: handlers_of_def)
  with assms(3) have mem: "h \<in> set ?xs"
    by (simp add: count_remove1_twice)
  have "off event (Some h) ?s' = ?s'\<lparr>arrays := (arrays ?s')[r := remove1 h (arrays ?s' ! r)]\<rparr>"
    using assms(1,2) by (intro off_Some_stored) simp_all
  then have second: "arrays (off event (Some h) ?s') ! r = remove1 h ?xs"
    using assms(2) by simp
  have "0 < length ?xs"
    using mem by (rule length_pos_if_in_set)
  with mem have "length (remove1 h ?xs) \<noteq> length ?xs"
    by (simp add: length_remove1)
  then have "arrays (off event (Some h) ?s') ! r \<noteq> arrays ?s' ! r"
    using second assms(2) by auto
  then have "off event (Some h) ?s' \<noteq> ?s'"
    by auto
  with first show ?thesis by simp
qed


section \<open>Unsubscribing twice\<close>

text \<open>
  C8, as the code has it. \<open>off\<close> with a handler removes one registration of the
  handler, the first. Removing a handler a second time leaves the registry as the first
  removal left it whenever the handler was registered at most once for the event; for an
  event that has a stored array, it does so only then. \<open>off\<close> without a handler is
  idempotent always.
\<close>

theorem off_idempotent_when_registered_once:
  "off event None (off event None s) = off event None s
   \<and> (count_list (handlers_of s event) h \<le> 1 \<longrightarrow>
        off event (Some h) (off event (Some h) s) = off event (Some h) s)
   \<and> (\<forall>r. map_of (eventHandlers s) event = Some r \<longrightarrow> r < length (arrays s) \<longrightarrow>
        handlers_of (off event (Some h) s) event = remove1 h (handlers_of s event)
        \<and> (off event (Some h) (off event (Some h) s) = off event (Some h) s
             \<longleftrightarrow> count_list (handlers_of s event) h \<le> 1))"
proof -
  have "off event None (off event None s) = off event None s"
    by (simp add: off_def delete_idem)
  moreover have "count_list (handlers_of s event) h \<le> 1 \<longrightarrow>
        off event (Some h) (off event (Some h) s) = off event (Some h) s"
    by (simp add: off_Some_again)
  moreover have "handlers_of (off event (Some h) s) event = remove1 h (handlers_of s event)
        \<and> (off event (Some h) (off event (Some h) s) = off event (Some h) s
             \<longleftrightarrow> count_list (handlers_of s event) h \<le> 1)"
    if r: "map_of (eventHandlers s) event = Some r" "r < length (arrays s)" for r
  proof -
    have "handlers_of (off event (Some h) s) event = remove1 h (handlers_of s event)"
      using r by (simp add: off_Some_stored handlers_of_def)
    moreover have "off event (Some h) (off event (Some h) s) = off event (Some h) s
             \<longleftrightarrow> count_list (handlers_of s event) h \<le> 1"
      using off_Some_again[of s event h] off_Some_twice_differs[OF r, of h]
      by (cases "count_list (handlers_of s event) h \<le> 1") auto
    ultimately show ?thesis by simp
  qed
  ultimately show ?thesis
    by blast
qed

text \<open>
  C8 at a concrete input: handler 1 is removed twice from the registry in which handlers
  1 and 2 are registered once each.
\<close>

theorem off_idempotent_when_registered_once_witness:
  "count_list (handlers_of two_handlers ''e'') 1 \<le> 1
   \<and> handlers_of (off ''e'' (Some 1) two_handlers) ''e'' = [2]
   \<and> off ''e'' (Some 1) (off ''e'' (Some 1) two_handlers) = off ''e'' (Some 1) two_handlers"
proof -
  have c: "count_list (handlers_of two_handlers ''e'') 1 \<le> 1"
    by (simp add: two_handlers_eq handlers_of_def)
  have m: "map_of (eventHandlers two_handlers) ''e'' = Some 0" "0 < length (arrays two_handlers)"
    by (simp_all add: two_handlers_eq)
  note t = off_idempotent_when_registered_once[of "''e''" two_handlers 1]
  from t c have "off ''e'' (Some 1) (off ''e'' (Some 1) two_handlers) = off ''e'' (Some 1) two_handlers"
    by blast
  moreover from t m have "handlers_of (off ''e'' (Some 1) two_handlers) ''e''
      = remove1 1 (handlers_of two_handlers ''e'')"
    by blast
  then have "handlers_of (off ''e'' (Some 1) two_handlers) ''e'' = [2]"
    by (simp add: two_handlers_eq handlers_of_def)
  ultimately show ?thesis
    using c by simp
qed

text \<open>
  C8 as stated fails: with handler 1 registered twice for the event, the second removal
  takes the second registration away.
\<close>

theorem off_twice_counterexample:
  "handlers_of twice_registered ''e'' = [1, 1]
   \<and> handlers_of (off ''e'' (Some 1) twice_registered) ''e'' = [1]
   \<and> handlers_of (off ''e'' (Some 1) (off ''e'' (Some 1) twice_registered)) ''e'' = []
   \<and> off ''e'' (Some 1) (off ''e'' (Some 1) twice_registered)
       \<noteq> off ''e'' (Some 1) twice_registered"
  by (simp add: twice_registered_eq off_def indexOf_def splice1_def handlers_of_def)


section \<open>Delivery\<close>

text \<open>
  Registration order is the order of the stored array: \<open>on\<close> appends.
\<close>

lemma on_registers_last:
  assumes "well_stored s"
  shows "handlers_of (on event h s) event = handlers_of s event @ [h]"
proof (cases "map_of (eventHandlers s) event")
  case None
  then show ?thesis
    by (simp add: on_def handlers_of_def update_conv')
next
  case (Some r)
  with assms have "r < length (arrays s)"
    by (simp add: well_stored_lookup)
  with Some show ?thesis
    by (simp add: on_def handlers_of_def update_conv')
qed

lemma emit_callback_never_throws: "fst (emit_callback beh event d h \<sigma>) = None"
  by (simp add: emit_callback_def split: prod.splits option.splits)

lemma forEach_from_never_throws:
  assumes "\<And>h \<sigma>. fst (callback h \<sigma>) = None"
  shows "fst (forEach_from callback arr k n \<sigma>) = None"
proof (induction n arbitrary: k \<sigma>)
  case 0
  show ?case by simp
next
  case (Suc n)
  show ?case
  proof (cases "k < length (arr \<sigma>)")
    case False
    then show ?thesis using Suc.IH by simp
  next
    case True
    obtain x \<sigma>' where c: "callback (arr \<sigma> ! k) \<sigma> = (x, \<sigma>')"
      by (cases "callback (arr \<sigma> ! k) \<sigma>")
    with assms[of "arr \<sigma> ! k" \<sigma>] have "x = None" by simp
    with c True Suc.IH show ?thesis by simp
  qed
qed

lemma emit_never_throws: "fst (emit beh event d \<sigma>) = None"
  by (simp add: emit_def forEach_def forEach_from_never_throws emit_callback_never_throws
      split: option.splits)

subsection \<open>Throwing changes the console only\<close>

lemma emit_callback_no_throw:
  assumes "same_but_console \<sigma>1 \<sigma>2"
  shows "same_but_console (snd (emit_callback beh event d h \<sigma>1))
           (snd (emit_callback (no_throw beh) event d h \<sigma>2))"
  using assms
  by (auto simp: same_but_console_def emit_callback_def invoke_def no_throw_def
      split: prod.splits option.splits)

lemma forEach_from_no_throw:
  assumes "same_but_console \<sigma>1 \<sigma>2"
  shows "same_but_console
           (snd (forEach_from (emit_callback beh event d) (\<lambda>\<sigma>. f (service \<sigma>)) k n \<sigma>1))
           (snd (forEach_from (emit_callback (no_throw beh) event d) (\<lambda>\<sigma>. f (service \<sigma>)) k n \<sigma>2))"
  using assms
proof (induction n arbitrary: k \<sigma>1 \<sigma>2)
  case 0
  then show ?case by simp
next
  case (Suc n)
  from Suc.prems have s: "service \<sigma>1 = service \<sigma>2"
    by (simp add: same_but_console_def)
  show ?case
  proof (cases "k < length (f (service \<sigma>1))")
    case False
    with s Suc.IH[OF Suc.prems] show ?thesis by simp
  next
    case True
    let ?h = "f (service \<sigma>1) ! k"
    obtain x1 \<tau>1 where c1: "emit_callback beh event d ?h \<sigma>1 = (x1, \<tau>1)"
      by (cases "emit_callback beh event d ?h \<sigma>1")
    obtain x2 \<tau>2 where c2: "emit_callback (no_throw beh) event d ?h \<sigma>2 = (x2, \<tau>2)"
      by (cases "emit_callback (no_throw beh) event d ?h \<sigma>2")
    have n1: "x1 = None"
      using emit_callback_never_throws[of beh event d ?h \<sigma>1] c1 by simp
    have n2: "x2 = None"
      using emit_callback_never_throws[of "no_throw beh" event d ?h \<sigma>2] c2 by simp
    have "same_but_console \<tau>1 \<tau>2"
      using emit_callback_no_throw[OF Suc.prems, where beh = beh and event = event and d = d and h = ?h]
        c1 c2 by simp
    from Suc.IH[OF this, of "Suc k"] True s c1 c2 n1 n2 show ?thesis
      by simp
  qed
qed

lemma emit_no_throw:
  "same_but_console (snd (emit beh event d \<sigma>)) (snd (emit (no_throw beh) event d \<sigma>))"
proof -
  have r: "same_but_console \<sigma> \<sigma>"
    by (simp add: same_but_console_def)
  show ?thesis
  proof (cases "map_of (eventHandlers (service \<sigma>)) event")
    case None
    with forEach_from_no_throw[OF r, where f = "\<lambda>_. []" and beh = beh and event = event
        and d = d and k = 0 and n = 0]
    show ?thesis
      by (simp add: emit_def forEach_def)
  next
    case (Some a)
    with forEach_from_no_throw[OF r, where f = "\<lambda>s. arrays s ! a" and beh = beh
        and event = event and d = d and k = 0 and n = "length (arrays (service \<sigma>) ! a)"]
    show ?thesis
      by (simp add: emit_def forEach_def)
  qed
qed

subsection \<open>Delivery when no handler is taken out of the walked array\<close>

lemma iterating_on:
  assumes "iterating event r xs s"
  shows "iterating event r xs (on e h s)"
proof -
  from assms have ws: "well_stored (on e h s)"
    by (simp add: iterating_def well_stored_on)
  from assms have r: "r < length (arrays s)" "take (length xs) (arrays s ! r) = xs"
    by (simp_all add: iterating_def)
  then have l: "length xs \<le> length (arrays s ! r)"
    by (metis length_take min.cobounded2 min.commute)
  show ?thesis
  proof (cases "map_of (eventHandlers s) e")
    case None
    from r None have "r < length (arrays (on e h s))"
      "take (length xs) (arrays (on e h s) ! r) = xs"
      by (simp_all add: on_def nth_append)
    moreover have "\<forall>e'. map_of (eventHandlers (on e h s)) e' = Some r \<longrightarrow> e' = event"
      using assms None by (auto simp: iterating_def on_def update_conv')
    ultimately show ?thesis
      using ws by (simp add: iterating_def)
  next
    case (Some a)
    have "take (length xs) (arrays (on e h s) ! r) = xs"
      using Some r l by (cases "a = r") (simp_all add: on_def)
    moreover have "\<forall>e'. map_of (eventHandlers (on e h s)) e' = Some r \<longrightarrow> e' = event"
      using assms Some by (simp add: iterating_def on_def update_triv)
    ultimately show ?thesis
      using ws r Some by (simp add: iterating_def on_def)
  qed
qed

lemma iterating_off_None:
  assumes "iterating event r xs s"
  shows "iterating event r xs (off e None s)"
proof -
  from assms have "well_stored (off e None s)"
    by (simp add: iterating_def well_stored_off)
  moreover have "\<forall>e'. map_of (eventHandlers (off e None s)) e' = Some r \<longrightarrow> e' = event"
    using assms by (auto simp: iterating_def off_def delete_conv' split: if_splits)
  ultimately show ?thesis
    using assms by (simp add: iterating_def off_def)
qed

lemma iterating_off_Some:
  assumes "iterating event r xs s" and "e \<noteq> event"
  shows "iterating event r xs (off e (Some h) s)"
proof -
  from assms have ws: "well_stored (off e (Some h) s)"
    by (simp add: iterating_def well_stored_off)
  show ?thesis
  proof (cases "map_of (eventHandlers s) e")
    case None
    with assms show ?thesis by (simp add: off_def)
  next
    case (Some a)
    with assms have "a \<noteq> r"
      by (auto simp: iterating_def)
    with assms Some ws show ?thesis
      by (auto simp: iterating_def off_def update_triv split: option.splits)
  qed
qed

lemma iterating_run_calls:
  assumes "iterating event r xs s" and "list_all (keeps_array event) cs"
  shows "iterating event r xs (run_calls cs s)"
  using assms
proof (induction cs arbitrary: s)
  case Nil
  then show ?case by (simp add: run_calls_def)
next
  case (Cons c cs)
  have "iterating event r xs (run_call c s)"
  proof (cases c)
    case (CallOn e h)
    with Cons.prems show ?thesis by (simp add: iterating_on)
  next
    case (CallOff e g)
    with Cons.prems show ?thesis
      by (cases g) (simp_all add: iterating_off_None iterating_off_Some)
  qed
  with Cons.IH[of "run_call c s"] Cons.prems(2) show ?case
    by (simp add: run_calls_def)
qed

lemma emit_callback_keeps:
  assumes "iterating event r xs (service \<sigma>)"
    and "list_all (keeps_array event) (fst (beh h d (world \<sigma>)))"
  shows "iterating event r xs (service (snd (emit_callback beh event d h \<sigma>)))
         \<and> delivered (snd (emit_callback beh event d h \<sigma>)) = delivered \<sigma> @ [(h, d)]"
proof -
  obtain cs thrown w' where b: "beh h d (world \<sigma>) = (cs, thrown, w')"
    by (cases "beh h d (world \<sigma>)")
  with assms(2) have "list_all (keeps_array event) cs" by simp
  with assms(1) have "iterating event r xs (run_calls cs (service \<sigma>))"
    by (rule iterating_run_calls)
  with b show ?thesis
    by (cases thrown) (simp_all add: emit_callback_def invoke_def)
qed

lemma forEach_from_keeps:
  assumes "iterating event r xs (service \<sigma>)"
    and "\<forall>h\<in>set xs. \<forall>w. list_all (keeps_array event) (fst (beh h d w))"
    and "k + n = length xs"
  shows "delivered (snd (forEach_from (emit_callback beh event d)
                          (\<lambda>\<sigma>'. arrays (service \<sigma>') ! r) k n \<sigma>))
           = delivered \<sigma> @ map (\<lambda>h. (h, d)) (drop k xs)"
  using assms
proof (induction n arbitrary: k \<sigma>)
  case 0
  then show ?case by simp
next
  case (Suc n)
  from Suc.prems(3) have k: "k < length xs" by simp
  from Suc.prems(1) have t: "take (length xs) (arrays (service \<sigma>) ! r) = xs"
    by (simp add: iterating_def)
  then have "length xs \<le> length (arrays (service \<sigma>) ! r)"
    by (metis length_take min.cobounded2 min.commute)
  with k have inb: "k < length (arrays (service \<sigma>) ! r)" by simp
  from t k have el: "arrays (service \<sigma>) ! r ! k = xs ! k"
    by (metis nth_take)
  let ?h = "xs ! k"
  obtain x \<tau> where c: "emit_callback beh event d ?h \<sigma> = (x, \<tau>)"
    by (cases "emit_callback beh event d ?h \<sigma>")
  have x: "x = None"
    using emit_callback_never_throws[of beh event d ?h \<sigma>] c by simp
  from k Suc.prems(2) have "list_all (keeps_array event) (fst (beh ?h d (world \<sigma>)))"
    by simp
  from emit_callback_keeps[where beh = beh and h = ?h and d = d and \<sigma> = \<sigma>, OF Suc.prems(1) this] c
  have i: "iterating event r xs (service \<tau>)" and dl: "delivered \<tau> = delivered \<sigma> @ [(?h, d)]"
    by simp_all
  from Suc.prems(3) have "Suc k + n = length xs" by simp
  from Suc.IH[OF i Suc.prems(2) this] dl
  have "delivered (snd (forEach_from (emit_callback beh event d)
                          (\<lambda>\<sigma>'. arrays (service \<sigma>') ! r) (Suc k) n \<tau>))
           = delivered \<sigma> @ (?h, d) # map (\<lambda>h. (h, d)) (drop (Suc k) xs)"
    by simp
  moreover have "drop k xs = ?h # drop (Suc k) xs"
    using k by (simp add: Cons_nth_drop_Suc)
  ultimately show ?case
    using inb el c x by simp
qed

text \<open>
  In a well stored registry, unless a handler called in the delivery takes a handler of
  the event out (\<open>off(event, handler)\<close>), \<open>emit\<close> calls every handler registered for
  the event when it began, in the order of registration. Handlers may register handlers,
  delete events, and take handlers of other events out.
\<close>

lemma emit_keeps:
  assumes "well_stored (service \<sigma>)"
    and "\<forall>h\<in>set (handlers_of (service \<sigma>) event). \<forall>w.
           list_all (keeps_array event) (fst (beh h d w))"
  shows "delivered (snd (emit beh event d \<sigma>))
           = delivered \<sigma> @ map (\<lambda>h. (h, d)) (handlers_of (service \<sigma>) event)"
proof (cases "map_of (eventHandlers (service \<sigma>)) event")
  case None
  then show ?thesis
    by (simp add: emit_def forEach_def handlers_of_def)
next
  case (Some r)
  let ?xs = "arrays (service \<sigma>) ! r"
  from Some have h: "handlers_of (service \<sigma>) event = ?xs"
    by (simp add: handlers_of_def)
  have "iterating event r ?xs (service \<sigma>)"
    using assms(1) Some
    by (auto simp: iterating_def well_stored_lookup intro: well_stored_same_address)
  moreover have "\<forall>h\<in>set ?xs. \<forall>w. list_all (keeps_array event) (fst (beh h d w))"
    using assms(2) h by simp
  ultimately have "delivered (snd (forEach_from (emit_callback beh event d)
                          (\<lambda>\<sigma>'. arrays (service \<sigma>') ! r) 0 (length ?xs) \<sigma>))
           = delivered \<sigma> @ map (\<lambda>h. (h, d)) (drop 0 ?xs)"
    by (intro forEach_from_keeps) simp_all
  with Some h show ?thesis
    by (simp add: emit_def forEach_def)
qed

subsection \<open>C7: a handler that unsubscribes during delivery\<close>

text \<open>
  C7 at an input where the code departs from it. Handlers 1 and 2 are registered for the
  event, in this order, and handler 1 unsubscribes itself when it is called. \<open>emit\<close>
  calls handler 1 and returns; handler 2, registered when \<open>emit\<close> was called and still
  registered afterwards, is never called with the data. The \<open>splice\<close> of \<open>off\<close>
  moves handler 2 to index 0 of the array that \<open>forEach\<close> is walking, which goes on to
  index 1 and finds nothing there.
\<close>

theorem emit_skips_after_self_removal:
  "handlers_of two_handlers ''e'' = [1, 2]
   \<and> fst (emit self_removing ''e'' d (start two_handlers ())) = None
   \<and> delivered (snd (emit self_removing ''e'' d (start two_handlers ()))) = [(1, d)]
   \<and> handlers_of (service (snd (emit self_removing ''e'' d (start two_handlers ())))) ''e'' = [2]"
  by (simp add: two_handlers_eq handlers_of_def emit_def forEach_def start_def emit_callback_def
      invoke_def self_removing_def run_calls_def off_def indexOf_def splice1_def numeral_2_eq_2)

subsection \<open>C9: a handler that throws\<close>

text \<open>
  What holds for every input. For every event, every data and all handlers, \<open>emit\<close>
  never ends with an exception, and a handler that throws changes nothing of the delivery:
  the calls made, the registry and the world afterwards are those of the same handlers not
  throwing (only the console differs). In a well stored registry, unless a handler takes a
  handler of the event out during the delivery, every handler registered for the event is
  called with the data, in the order of registration, whichever of them throw.
\<close>

lemma emit_isolates_throwing_handlers:
  "fst (emit beh event d \<sigma>) = None
   \<and> service (snd (emit beh event d \<sigma>)) = service (snd (emit (no_throw beh) event d \<sigma>))
   \<and> world (snd (emit beh event d \<sigma>)) = world (snd (emit (no_throw beh) event d \<sigma>))
   \<and> delivered (snd (emit beh event d \<sigma>)) = delivered (snd (emit (no_throw beh) event d \<sigma>))
   \<and> (well_stored (service \<sigma>) \<longrightarrow>
       (\<forall>h\<in>set (handlers_of (service \<sigma>) event). \<forall>w.
           list_all (keeps_array event) (fst (beh h d w))) \<longrightarrow>
        delivered (snd (emit beh event d \<sigma>))
          = delivered \<sigma> @ map (\<lambda>h. (h, d)) (handlers_of (service \<sigma>) event))"
  using emit_never_throws[of beh event d \<sigma>] emit_no_throw[of beh event d \<sigma>]
    emit_keeps[where \<sigma> = \<sigma> and event = event and beh = beh and d = d]
  by (simp add: same_but_console_def)

text \<open>
  At a concrete input: handlers 1 and 2 are registered and both throw; both are called, in
  this order, and both exceptions are logged.
\<close>

lemma emit_isolates_throwing_handlers_witness:
  "well_stored two_handlers
   \<and> (\<forall>w. list_all (keeps_array ''e'') (fst (all_throwing 1 (7::nat) w))
          \<and> list_all (keeps_array ''e'') (fst (all_throwing 2 (7::nat) w)))
   \<and> fst (snd (all_throwing 1 (7::nat) ())) = Some ''boom''
   \<and> fst (snd (all_throwing 2 (7::nat) ())) = Some ''boom''
   \<and> handlers_of two_handlers ''e'' = [1, 2]
   \<and> fst (emit all_throwing ''e'' (7::nat) (start two_handlers ())) = None
   \<and> delivered (snd (emit all_throwing ''e'' (7::nat) (start two_handlers ()))) = [(1, 7), (2, 7)]
   \<and> map snd (console (snd (emit all_throwing ''e'' (7::nat) (start two_handlers ()))))
       = [''boom'', ''boom'']"
proof -
  let ?\<sigma> = "start two_handlers () :: (nat, nat, unit) runtime"
  have ws: "well_stored (service ?\<sigma>)"
    by (simp add: start_def two_handlers_def well_stored_on well_stored_new)
  have q: "\<forall>h\<in>set (handlers_of (service ?\<sigma>) ''e''). \<forall>w.
             list_all (keeps_array ''e'') (fst (all_throwing h (7::nat) w))"
    by (simp add: all_throwing_def)
  have h: "handlers_of (service ?\<sigma>) ''e'' = [1, 2]"
    by (simp add: two_handlers_eq handlers_of_def start_def)
  note t = emit_isolates_throwing_handlers[of all_throwing "''e''" "7::nat" ?\<sigma>]
  from t have "fst (emit all_throwing ''e'' (7::nat) ?\<sigma>) = None"
    by (rule conjunct1)
  moreover from t ws q
  have "delivered (snd (emit all_throwing ''e'' (7::nat) ?\<sigma>))
          = delivered ?\<sigma> @ map (\<lambda>h. (h, 7)) (handlers_of (service ?\<sigma>) ''e'')"
    by (elim conjE impE) assumption+
  moreover have "map snd (console (snd (emit all_throwing ''e'' (7::nat) ?\<sigma>))) = [''boom'', ''boom'']"
    by (simp add: two_handlers_eq emit_def forEach_def start_def emit_callback_def
        invoke_def all_throwing_def run_calls_def numeral_2_eq_2)
  ultimately show ?thesis
    using h ws by (simp add: start_def all_throwing_def)
qed

text \<open>
  C9 at an input where the code departs from it. Handlers 1 and 2 are registered for the
  event, in this order; handler 1, when called, unsubscribes itself and then throws.
  \<open>emit\<close> catches the exception, logs it and returns normally, but it does not call
  the remaining handler: handler 2, registered after handler 1 and still registered
  afterwards, never receives the data. The handler is skipped by the \<open>splice\<close> of
  \<open>off\<close> on the array that \<open>forEach\<close> is walking, as in C7; the exception plays no
  part in it.
\<close>

theorem emit_skips_after_throwing_self_removal:
  "handlers_of two_handlers ''e'' = [1, 2]
   \<and> fst (removing_and_throwing 1 d ()) = [CallOff ''e'' (Some 1)]
   \<and> fst (snd (removing_and_throwing 1 d ())) = Some ''boom''
   \<and> fst (emit removing_and_throwing ''e'' d (start two_handlers ())) = None
   \<and> map snd (console (snd (emit removing_and_throwing ''e'' d (start two_handlers ()))))
       = [''boom'']
   \<and> delivered (snd (emit removing_and_throwing ''e'' d (start two_handlers ()))) = [(1, d)]
   \<and> handlers_of (service (snd (emit removing_and_throwing ''e'' d (start two_handlers ()))))
        ''e'' = [2]"
  by (simp add: two_handlers_eq handlers_of_def emit_def forEach_def start_def emit_callback_def
      invoke_def removing_and_throwing_def run_calls_def off_def indexOf_def splice1_def
      numeral_2_eq_2)

end
